theory Spec2Isabelle
  imports Main
begin

section \<open>The callback correlation layer of MXU (components/connection/callbackCache)\<close>

text \<open>
  The module keeps two tables from request ids to outcomes, a flag, and talks to
  three services of its environment: \<^verbatim>\<open>maaService.onCallback\<close> (the upstream
  event source, itself a wrapper around the \<^verbatim>\<open>listen\<close> of the Tauri runtime),
  \<^verbatim>\<open>setTimeout\<close>/\<^verbatim>\<open>setInterval\<close>/\<^verbatim>\<open>clearInterval\<close> (the timers of the JavaScript
  event loop) and \<^verbatim>\<open>Date.now\<close> (the clock, in milliseconds).
  The embedding passes all of it in one state record. Every callback of the source
  runs to completion (single-threaded event loop), so each one is a function from
  states to states.
\<close>

subsection \<open>Data\<close>

text \<open>\<^verbatim>\<open>export type CallbackResult = 'succeeded' | 'failed'\<close>\<close>

datatype CallbackResult = succeeded | failed

text \<open>The two module-level maps; a closure of the source refers to one of them.\<close>

datatype cache = CtrlCache | ResCache

text \<open>
  \<^verbatim>\<open>MaaCallbackDetails\<close>: every field is optional, and an absent field
  (\<^verbatim>\<open>undefined\<close>) is \<open>None\<close>. The three id fields are kept; the listener reads
  only \<^verbatim>\<open>ctrl_id\<close> and \<^verbatim>\<open>res_id\<close>, and the remaining fields (strings the module never
  looks at) are left out.
\<close>

record MaaCallbackDetails =
  res_id :: "int option"
  ctrl_id :: "int option"
  task_id :: "int option"

text \<open>
  The closures the module hands to the timers:
  \<^item> \<open>DeleteEntry c k\<close> is \<^verbatim>\<open>() => cache.delete(k)\<close>, given to \<^verbatim>\<open>setTimeout\<close>;
  \<^item> \<open>CheckInterval c k startTime timeoutMs\<close> is the polling callback given to
    \<^verbatim>\<open>setInterval\<close>, with the variables it captured.
\<close>

datatype timerTask =
    DeleteEntry cache int
  | CheckInterval cache int int int

record timer =
  due :: int
  task :: timerTask

text \<open>
  The state: the module's variables, and the part of the event loop and of
  \<^verbatim>\<open>maaService\<close> the module uses.
  \<^item> \<open>isTauri\<close> is what \<^verbatim>\<open>isTauri()\<close> answers (whether the page runs inside the Tauri
    shell); it never changes.
  \<^item> \<open>onCallback_calls\<close> counts the calls of \<^verbatim>\<open>maaService.onCallback\<close>; \<open>listening\<close>
    counts the calls of \<^verbatim>\<open>listen\<close> that it awaits and that have not settled yet;
    \<open>handlers\<close> counts the subscriptions that exist, each one running the module's
    listener on every event (the module hands \<^verbatim>\<open>onCallback\<close> no other callback).
  \<^item> Timers are keyed by the id \<^verbatim>\<open>setTimeout\<close>/\<^verbatim>\<open>setInterval\<close> returned (ids are
    handed out in increasing order). A pending wait is identified by the id of its
    interval; \<open>resolved\<close> records the value its promise was resolved with, and when.
\<close>

record state =
  ctrlCallbackCache :: "int \<rightharpoonup> CallbackResult"
  resCallbackCache :: "int \<rightharpoonup> CallbackResult"
  globalListenerStarted :: bool
  isTauri :: bool
  onCallback_calls :: nat
  listening :: nat
  handlers :: nat
  now :: int
  timers :: "nat \<rightharpoonup> timer"
  next_timer :: nat
  resolved :: "nat \<rightharpoonup> CallbackResult \<times> int"

text \<open>
  The state when the module has just been loaded, at clock value \<open>t0\<close>, inside the
  Tauri shell (\<open>tauri\<close>) or in a plain browser.
\<close>

definition initial :: "bool \<Rightarrow> int \<Rightarrow> state" where
  "initial tauri t0 =
     \<lparr>ctrlCallbackCache = Map.empty, resCallbackCache = Map.empty,
      globalListenerStarted = False, isTauri = tauri, onCallback_calls = 0,
      listening = 0, handlers = 0, now = t0,
      timers = Map.empty, next_timer = 0, resolved = Map.empty\<rparr>"

subsection \<open>Map and timer primitives\<close>

fun cache_of :: "cache \<Rightarrow> state \<Rightarrow> (int \<rightharpoonup> CallbackResult)" where
  "cache_of CtrlCache s = ctrlCallbackCache s"
| "cache_of ResCache s = resCallbackCache s"

text \<open>\<^verbatim>\<open>cache.set(k, v)\<close>\<close>

fun cache_set :: "cache \<Rightarrow> int \<Rightarrow> CallbackResult \<Rightarrow> state \<Rightarrow> state" where
  "cache_set CtrlCache k v s = s\<lparr>ctrlCallbackCache := (ctrlCallbackCache s)(k \<mapsto> v)\<rparr>"
| "cache_set ResCache k v s = s\<lparr>resCallbackCache := (resCallbackCache s)(k \<mapsto> v)\<rparr>"

text \<open>\<^verbatim>\<open>cache.delete(k)\<close>; deleting an absent key changes nothing.\<close>

fun cache_delete :: "cache \<Rightarrow> int \<Rightarrow> state \<Rightarrow> state" where
  "cache_delete CtrlCache k s = s\<lparr>ctrlCallbackCache := (ctrlCallbackCache s)(k := None)\<rparr>"
| "cache_delete ResCache k s = s\<lparr>resCallbackCache := (resCallbackCache s)(k := None)\<rparr>"

text \<open>
  \<^verbatim>\<open>setTimeout(f, delay)\<close> and \<^verbatim>\<open>setInterval(f, delay)\<close>: the callback is first due
  \<open>delay\<close> milliseconds from now, under a fresh id.
\<close>

definition setTimeout :: "timerTask \<Rightarrow> int \<Rightarrow> state \<Rightarrow> state" where
  "setTimeout f delay s =
     s\<lparr>timers := (timers s)(next_timer s \<mapsto> \<lparr>due = now s + delay, task = f\<rparr>),
       next_timer := Suc (next_timer s)\<rparr>"

definition setInterval :: "timerTask \<Rightarrow> int \<Rightarrow> state \<Rightarrow> state" where
  "setInterval f delay s =
     s\<lparr>timers := (timers s)(next_timer s \<mapsto> \<lparr>due = now s + delay, task = f\<rparr>),
       next_timer := Suc (next_timer s)\<rparr>"

definition clearInterval :: "nat \<Rightarrow> state \<Rightarrow> state" where
  "clearInterval i s = s\<lparr>timers := (timers s)(i := None)\<rparr>"

text \<open>\<^verbatim>\<open>resolve(v)\<close> of the promise of the wait polling under interval \<open>i\<close>;
  a promise is settled once.\<close>

definition resolve :: "nat \<Rightarrow> CallbackResult \<Rightarrow> state \<Rightarrow> state" where
  "resolve i v s =
     (case resolved s i of
        None \<Rightarrow> s\<lparr>resolved := (resolved s)(i \<mapsto> (v, now s))\<rparr>
      | Some _ \<Rightarrow> s)"

subsection \<open>The listener\<close>

definition CACHE_CLEANUP_TIMEOUT :: int where
  "CACHE_CLEANUP_TIMEOUT = 30000"

text \<open>The arrow function \<^verbatim>\<open>(message, details) => {...}\<close> given to \<^verbatim>\<open>onCallback\<close>.\<close>

definition listener :: "string \<Rightarrow> MaaCallbackDetails \<Rightarrow> state \<Rightarrow> state" where
  "listener message details s =
     (let s1 =
        (case ctrl_id details of
           None \<Rightarrow> s
         | Some c \<Rightarrow>
             if message = ''Controller.Action.Succeeded'' then
               setTimeout (DeleteEntry CtrlCache c) CACHE_CLEANUP_TIMEOUT
                 (cache_set CtrlCache c succeeded s)
             else if message = ''Controller.Action.Failed'' then
               setTimeout (DeleteEntry CtrlCache c) CACHE_CLEANUP_TIMEOUT
                 (cache_set CtrlCache c failed s)
             else s)
      in
        (case res_id details of
           None \<Rightarrow> s1
         | Some r \<Rightarrow>
             if message = ''Resource.Loading.Succeeded'' then
               setTimeout (DeleteEntry ResCache r) CACHE_CLEANUP_TIMEOUT
                 (cache_set ResCache r succeeded s1)
             else if message = ''Resource.Loading.Failed'' then
               setTimeout (DeleteEntry ResCache r) CACHE_CLEANUP_TIMEOUT
                 (cache_set ResCache r failed s1)
             else s1))"

text \<open>
  \<^verbatim>\<open>maaService.onCallback(callback)\<close>, up to its first suspension: outside the Tauri
  shell it returns a function that does nothing and subscribes to nothing; inside, it
  calls \<^verbatim>\<open>listen\<close> and awaits it. The subscription exists once that \<^verbatim>\<open>listen\<close> has
  resolved (\<open>listen_resolved\<close>), a later task of the event loop; the \<^verbatim>\<open>listen\<close> may also
  reject (\<open>listen_rejected\<close>), and then there is none. \<^verbatim>\<open>startGlobalCallbackListener\<close>
  drops the promise \<^verbatim>\<open>onCallback\<close> returns, so neither outcome reaches the module.
\<close>

definition onCallback :: "state \<Rightarrow> state" where
  "onCallback s =
     (if \<not> isTauri s then s\<lparr>onCallback_calls := Suc (onCallback_calls s)\<rparr>
      else s\<lparr>onCallback_calls := Suc (onCallback_calls s), listening := Suc (listening s)\<rparr>)"

definition listen_resolved :: "state \<Rightarrow> state option" where
  "listen_resolved s =
     (if listening s = 0 then None
      else Some (s\<lparr>listening := listening s - 1, handlers := Suc (handlers s)\<rparr>))"

definition listen_rejected :: "state \<Rightarrow> state option" where
  "listen_rejected s =
     (if listening s = 0 then None else Some (s\<lparr>listening := listening s - 1\<rparr>))"

definition startGlobalCallbackListener :: "state \<Rightarrow> state" where
  "startGlobalCallbackListener s =
     (if globalListenerStarted s then s
      else onCallback (s\<lparr>globalListenerStarted := True\<rparr>))"

text \<open>
  The upstream source delivers one event: every subscription runs the listener on it,
  with the details its JSON payload parses to. When the payload does not parse, the
  handler of \<^verbatim>\<open>onCallback\<close> calls the listener with \<^verbatim>\<open>{}\<close>, the details without any
  field (\<open>no_details\<close>).
\<close>

definition emit :: "string \<Rightarrow> MaaCallbackDetails \<Rightarrow> state \<Rightarrow> state" where
  "emit message details s = (listener message details ^^ handlers s) s"

definition no_details :: MaaCallbackDetails where
  "no_details = \<lparr>res_id = None, ctrl_id = None, task_id = None\<rparr>"

subsection \<open>The waits\<close>

text \<open>
  What a call of \<^verbatim>\<open>waitForCtrlResult\<close>/\<^verbatim>\<open>waitForResResult\<close> hands back when it
  returns to its caller: \<open>Returned v\<close> when the function returned the cached value
  (before any promise or interval was made), \<open>Polling i\<close> when it returned the promise
  that the interval with id \<open>i\<close> will resolve.
\<close>

datatype waitReply = Returned CallbackResult | Polling nat

text \<open>
  The parameter \<^verbatim>\<open>timeoutMs: number = 30000\<close> is an \<open>int option\<close>; \<open>None\<close> is an
  omitted argument. \<^verbatim>\<open>Date.now()\<close> is read before the interval is set.
\<close>

definition waitForCtrlResult :: "int \<Rightarrow> int option \<Rightarrow> state \<Rightarrow> waitReply \<times> state" where
  "waitForCtrlResult ctrlId timeoutMs_arg s =
     (let timeoutMs = (case timeoutMs_arg of None \<Rightarrow> 30000 | Some t \<Rightarrow> t) in
      case ctrlCallbackCache s ctrlId of
        Some cached \<Rightarrow> (Returned cached, cache_delete CtrlCache ctrlId s)
      | None \<Rightarrow>
          (let startTime = now s in
           (Polling (next_timer s),
            setInterval (CheckInterval CtrlCache ctrlId startTime timeoutMs) 50 s)))"

definition waitForResResult :: "int \<Rightarrow> int option \<Rightarrow> state \<Rightarrow> waitReply \<times> state" where
  "waitForResResult resId timeoutMs_arg s =
     (let timeoutMs = (case timeoutMs_arg of None \<Rightarrow> 30000 | Some t \<Rightarrow> t) in
      case resCallbackCache s resId of
        Some cached \<Rightarrow> (Returned cached, cache_delete ResCache resId s)
      | None \<Rightarrow>
          (let startTime = now s in
           (Polling (next_timer s),
            setInterval (CheckInterval ResCache resId startTime timeoutMs) 50 s)))"

text \<open>
  The polling callback, run under interval id \<open>checkInterval\<close>: the entry is looked
  for first, the deadline second.
\<close>

definition checkInterval_callback ::
    "nat \<Rightarrow> cache \<Rightarrow> int \<Rightarrow> int \<Rightarrow> int \<Rightarrow> state \<Rightarrow> state" where
  "checkInterval_callback checkInterval c k startTime timeoutMs s =
     (case cache_of c s k of
        Some result \<Rightarrow>
          resolve checkInterval result (cache_delete c k (clearInterval checkInterval s))
      | None \<Rightarrow>
          if now s - startTime > timeoutMs then
            resolve checkInterval failed (clearInterval checkInterval s)
          else s)"

subsection \<open>The event loop\<close>

text \<open>
  A timer that is due runs its callback. A timeout is removed when it fires; an
  interval is re-armed 50 ms later (the only interval delay the module uses) before
  its callback runs, and stays so unless the callback clears it.
\<close>

definition runTimer :: "nat \<Rightarrow> timer \<Rightarrow> state \<Rightarrow> state" where
  "runTimer i tm s =
     (case task tm of
        DeleteEntry c k \<Rightarrow> cache_delete c k (s\<lparr>timers := (timers s)(i := None)\<rparr>)
      | CheckInterval c k startTime timeoutMs \<Rightarrow>
          checkInterval_callback i c k startTime timeoutMs
            (s\<lparr>timers := (timers s)(i \<mapsto> tm\<lparr>due := due tm + 50\<rparr>)\<rparr>))"

text \<open>No pending timer is due before clock value \<open>t\<close>.\<close>

definition none_due_before :: "int \<Rightarrow> state \<Rightarrow> bool" where
  "none_due_before t s =
     list_all (\<lambda>i. case timers s i of None \<Rightarrow> True | Some tm \<Rightarrow> t \<le> due tm)
       [0 ..< next_timer s]"

text \<open>
  What can happen, one task of the event loop at a time: a call site calls one of the
  module's functions, an awaited \<^verbatim>\<open>listen\<close> settles, the upstream source delivers an
  event (with details that parse, or with a payload that does not), a due timer fires,
  or the clock advances. A timer does not fire early (\<open>Fire\<close> is refused before the due
  time); it may fire late, and timers that are due may fire in any order.
\<close>

datatype action =
    StartListener
  | ListenDone
  | ListenFailed
  | Callback string MaaCallbackDetails
  | CallbackUnparsed string
  | WaitCtrl int "int option"
  | WaitRes int "int option"
  | Fire nat
  | Elapse nat

fun step :: "action \<Rightarrow> state \<Rightarrow> state option" where
  "step StartListener s = Some (startGlobalCallbackListener s)"
| "step ListenDone s = listen_resolved s"
| "step ListenFailed s = listen_rejected s"
| "step (Callback message details) s = Some (emit message details s)"
| "step (CallbackUnparsed message) s = Some (emit message no_details s)"
| "step (WaitCtrl ctrlId timeoutMs) s = Some (snd (waitForCtrlResult ctrlId timeoutMs s))"
| "step (WaitRes resId timeoutMs) s = Some (snd (waitForResResult resId timeoutMs s))"
| "step (Fire i) s =
     (case timers s i of
        None \<Rightarrow> None
      | Some tm \<Rightarrow> if due tm \<le> now s then Some (runTimer i tm s) else None)"
| "step (Elapse d) s = Some (s\<lparr>now := now s + int d\<rparr>)"

fun exec :: "action list \<Rightarrow> state \<Rightarrow> state option" where
  "exec [] s = Some s"
| "exec (a # as) s = (case step a s of None \<Rightarrow> None | Some s' \<Rightarrow> exec as s')"

text \<open>
  The timers of a run are punctual when the clock never passes the due time of a pending
  timer: every timer fires at the clock value it is due at. \<open>on_schedule a s\<close> says so
  of one action taken in state \<open>s\<close>, \<open>punctual as s\<close> of the run of \<open>as\<close> from \<open>s\<close>.
\<close>

fun on_schedule :: "action \<Rightarrow> state \<Rightarrow> bool" where
  "on_schedule (Elapse d) s = none_due_before (now s + int d) s"
| "on_schedule _ s = True"

fun punctual :: "action list \<Rightarrow> state \<Rightarrow> bool" where
  "punctual [] s = True"
| "punctual (a # as) s =
     (on_schedule a s \<and> (case step a s of None \<Rightarrow> False | Some s' \<Rightarrow> punctual as s'))"


subsection \<open>Vocabulary of the specification\<close>

text \<open>
  The namespaces of the specification are the two maps. For a namespace, \<open>id_field\<close> is
  the field of the event that carries its correlation id, and \<open>terminal_kind\<close> reads a
  message kind as the outcome it announces in that namespace, if it is terminal there.
  \<open>written c message details\<close> is the entry the specification asks the listener to write
  into table \<open>c\<close> on that event.
\<close>

fun id_field :: "cache \<Rightarrow> MaaCallbackDetails \<Rightarrow> int option" where
  "id_field CtrlCache details = ctrl_id details"
| "id_field ResCache details = res_id details"

fun terminal_kind :: "cache \<Rightarrow> string \<Rightarrow> CallbackResult option" where
  "terminal_kind CtrlCache message =
     (if message = ''Controller.Action.Succeeded'' then Some succeeded
      else if message = ''Controller.Action.Failed'' then Some failed
      else None)"
| "terminal_kind ResCache message =
     (if message = ''Resource.Loading.Succeeded'' then Some succeeded
      else if message = ''Resource.Loading.Failed'' then Some failed
      else None)"

definition written ::
    "cache \<Rightarrow> string \<Rightarrow> MaaCallbackDetails \<Rightarrow> (int \<times> CallbackResult) option" where
  "written c message details =
     (case id_field c details of
        None \<Rightarrow> None
      | Some k \<Rightarrow> (case terminal_kind c message of None \<Rightarrow> None | Some v \<Rightarrow> Some (k, v)))"

text \<open>The action is an event that is a terminal notification for id \<open>k\<close> of table \<open>c\<close>.\<close>

fun notifies :: "cache \<Rightarrow> int \<Rightarrow> action \<Rightarrow> bool" where
  "notifies c k (Callback message details) =
     (case written c message details of None \<Rightarrow> False | Some (k', v) \<Rightarrow> k' = k)"
| "notifies c k _ = False"

text \<open>The timeout a pending wait was called with, as captured by its polling callback.\<close>

definition timeout_of :: "state \<Rightarrow> nat \<Rightarrow> int option" where
  "timeout_of s i =
     (case timers s i of
        None \<Rightarrow> None
      | Some tm \<Rightarrow>
          (case task tm of
             DeleteEntry c k \<Rightarrow> None
           | CheckInterval c k startTime timeoutMs \<Rightarrow> Some timeoutMs))"

subsection \<open>Derived forms of the source\<close>

text \<open>One write of the listener: the entry, and the deferred deletion of its key.\<close>

definition put :: "cache \<Rightarrow> int \<Rightarrow> CallbackResult \<Rightarrow> state \<Rightarrow> state" where
  "put c k v s = setTimeout (DeleteEntry c k) CACHE_CLEANUP_TIMEOUT (cache_set c k v s)"

text \<open>
  The two wait functions have the same body, one on each map; \<open>waitForResult\<close> is that
  body with the map as a parameter and the timeout given.
\<close>

definition waitForResult :: "cache \<Rightarrow> int \<Rightarrow> int \<Rightarrow> state \<Rightarrow> waitReply \<times> state" where
  "waitForResult c k timeoutMs s =
     (case cache_of c s k of
        Some cached \<Rightarrow> (Returned cached, cache_delete c k s)
      | None \<Rightarrow>
          (Polling (next_timer s), setInterval (CheckInterval c k (now s) timeoutMs) 50 s))"

text \<open>The wait actions, read as a call of the common body.\<close>

fun wait_of :: "action \<Rightarrow> (cache \<times> int \<times> int) option" where
  "wait_of (WaitCtrl ctrlId timeoutMs) =
     Some (CtrlCache, ctrlId, case timeoutMs of None \<Rightarrow> 30000 | Some t \<Rightarrow> t)"
| "wait_of (WaitRes resId timeoutMs) =
     Some (ResCache, resId, case timeoutMs of None \<Rightarrow> 30000 | Some t \<Rightarrow> t)"
| "wait_of _ = None"

subsection \<open>Counting insertions and consumptions\<close>

text \<open>
  Counting, for one id \<open>k\<close> of one table \<open>c\<close>. \<open>live\<close> is the number of outcomes the
  table holds for \<open>k\<close> (none or one). \<open>inserts\<close> is the number of times the action,
  taken in state \<open>s\<close>, writes an outcome for \<open>k\<close> into the table (once per registered
  handler). \<open>consumes\<close> is the number of waits the action, taken in state \<open>s\<close>, hands
  the table's outcome for \<open>k\<close> to: a call of a wait function that finds the entry at its
  first check, or a due polling callback that finds it. \<open>tally f as s\<close> adds \<open>f\<close> up
  along the run of \<open>as\<close> from \<open>s\<close>.
\<close>

definition live :: "cache \<Rightarrow> int \<Rightarrow> state \<Rightarrow> nat" where
  "live c k s = (case cache_of c s k of None \<Rightarrow> 0 | Some v \<Rightarrow> 1)"


fun consumes :: "cache \<Rightarrow> int \<Rightarrow> action \<Rightarrow> state \<Rightarrow> nat" where
  "consumes c k (Fire i) s =
     (case timers s i of
        None \<Rightarrow> 0
      | Some tm \<Rightarrow>
          (case task tm of
             DeleteEntry c' k' \<Rightarrow> 0
           | CheckInterval c' k' startTime timeoutMs \<Rightarrow>
               if c' = c \<and> k' = k \<and> due tm \<le> now s then live c k s else 0))"
| "consumes c k a s =
     (case wait_of a of
        None \<Rightarrow> 0
      | Some (c', k', T) \<Rightarrow> if c' = c \<and> k' = k then live c k s else 0)"


subsection \<open>Invariants\<close>

text \<open>
  What holds of every state the module can be in: \<^verbatim>\<open>onCallback\<close> has been called once
  if the flag is set and never otherwise; subscriptions, existing or being made, are
  no more than these calls, and none outside the Tauri shell; pending timers have ids
  below the next id and belong to unsettled waits; no promise of a future interval is
  settled. In a punctual run, moreover, no pending timer is overdue (\<open>on_time\<close>).
\<close>

definition wf :: "state \<Rightarrow> bool" where
  "wf s \<longleftrightarrow>
     onCallback_calls s = (if globalListenerStarted s then 1 else 0) \<and>
     handlers s + listening s \<le> (if isTauri s then onCallback_calls s else 0) \<and>
     (\<forall>i tm. timers s i = Some tm \<longrightarrow> i < next_timer s \<and> resolved s i = None) \<and>
     (\<forall>i. next_timer s \<le> i \<longrightarrow> resolved s i = None)"

definition on_time :: "state \<Rightarrow> bool" where
  "on_time s \<longleftrightarrow> (\<forall>i tm. timers s i = Some tm \<longrightarrow> now s \<le> due tm)"

text \<open>
  While the table holds an outcome for \<open>k\<close>, a deletion of \<open>k\<close> is pending that is due
  by \<open>deadline\<close>.
\<close>

definition covered :: "cache \<Rightarrow> int \<Rightarrow> int \<Rightarrow> state \<Rightarrow> bool" where
  "covered c k deadline s \<longleftrightarrow>
     (cache_of c s k \<noteq> None \<longrightarrow>
        (\<exists>i tm. timers s i = Some tm \<and> task tm = DeleteEntry c k \<and> due tm \<le> deadline))"




section \<open>Basic facts\<close>

lemma written_exclusive:
  "written c message details = Some kv \<Longrightarrow> c' \<noteq> c \<Longrightarrow> written c' message details = None"
  by (cases c; cases c') (auto simp: written_def split: option.splits if_splits)

lemma listener_put:
  assumes "written c message details = Some (k, v)"
  shows "listener message details s = put c k v s"
proof (cases c)
  case CtrlCache
  from assms CtrlCache have "written ResCache message details = None"
    by (auto dest: written_exclusive)
  with assms CtrlCache show ?thesis
    by (auto simp: listener_def written_def put_def Let_def split: option.splits if_splits)
next
  case ResCache
  from assms ResCache have "written CtrlCache message details = None"
    by (auto dest: written_exclusive)
  with assms ResCache show ?thesis
    by (auto simp: listener_def written_def put_def Let_def split: option.splits if_splits)
qed

lemma listener_skip:
  assumes "written CtrlCache message details = None" "written ResCache message details = None"
  shows "listener message details s = s"
  using assms
  by (auto simp: listener_def written_def Let_def split: option.splits if_splits)


subsection \<open>Observations of the primitives\<close>

lemma cache_of_set [simp]:
  "cache_of c (cache_set c' k v s) = (if c = c' then (cache_of c s)(k \<mapsto> v) else cache_of c s)"
  by (cases c; cases c') simp_all

lemma cache_of_delete [simp]:
  "cache_of c (cache_delete c' k s) = (if c = c' then (cache_of c s)(k := None) else cache_of c s)"
  by (cases c; cases c') simp_all

lemma cache_of_update [simp]:
  "cache_of c (s\<lparr>timers := tms\<rparr>) = cache_of c s"
  "cache_of c (s\<lparr>next_timer := n\<rparr>) = cache_of c s"
  "cache_of c (s\<lparr>now := t\<rparr>) = cache_of c s"
  "cache_of c (s\<lparr>resolved := r\<rparr>) = cache_of c s"
  "cache_of c (s\<lparr>handlers := h\<rparr>) = cache_of c s"
  "cache_of c (s\<lparr>listening := l\<rparr>) = cache_of c s"
  "cache_of c (s\<lparr>onCallback_calls := n\<rparr>) = cache_of c s"
  "cache_of c (s\<lparr>globalListenerStarted := b\<rparr>) = cache_of c s"
  by (cases c; simp)+

lemma cache_set_fields [simp]:
  "now (cache_set c k v s) = now s"
  "timers (cache_set c k v s) = timers s"
  "next_timer (cache_set c k v s) = next_timer s"
  "resolved (cache_set c k v s) = resolved s"
  "handlers (cache_set c k v s) = handlers s"
  "listening (cache_set c k v s) = listening s"
  "onCallback_calls (cache_set c k v s) = onCallback_calls s"
  "isTauri (cache_set c k v s) = isTauri s"
  "globalListenerStarted (cache_set c k v s) = globalListenerStarted s"
  by (cases c; simp)+

lemma cache_delete_fields [simp]:
  "now (cache_delete c k s) = now s"
  "timers (cache_delete c k s) = timers s"
  "next_timer (cache_delete c k s) = next_timer s"
  "resolved (cache_delete c k s) = resolved s"
  "handlers (cache_delete c k s) = handlers s"
  "listening (cache_delete c k s) = listening s"
  "onCallback_calls (cache_delete c k s) = onCallback_calls s"
  "isTauri (cache_delete c k s) = isTauri s"
  "globalListenerStarted (cache_delete c k s) = globalListenerStarted s"
  by (cases c; simp)+

lemma put_fields [simp]:
  "cache_of c' (put c k v s) = (if c' = c then (cache_of c' s)(k \<mapsto> v) else cache_of c' s)"
  "timers (put c k v s) =
     (timers s)(next_timer s \<mapsto> \<lparr>due = now s + 30000, task = DeleteEntry c k\<rparr>)"
  "next_timer (put c k v s) = Suc (next_timer s)"
  "now (put c k v s) = now s"
  "resolved (put c k v s) = resolved s"
  "handlers (put c k v s) = handlers s"
  "listening (put c k v s) = listening s"
  "onCallback_calls (put c k v s) = onCallback_calls s"
  "isTauri (put c k v s) = isTauri s"
  "globalListenerStarted (put c k v s) = globalListenerStarted s"
  by (simp_all add: put_def setTimeout_def CACHE_CLEANUP_TIMEOUT_def)

lemma put_caches [simp]:
  "ctrlCallbackCache (put c k v s) =
     (if c = CtrlCache then (ctrlCallbackCache s)(k \<mapsto> v) else ctrlCallbackCache s)"
  "resCallbackCache (put c k v s) =
     (if c = ResCache then (resCallbackCache s)(k \<mapsto> v) else resCallbackCache s)"
  by (cases c; simp add: put_def setTimeout_def)+

lemma setInterval_fields [simp]:
  "cache_of c (setInterval f d s) = cache_of c s"
  "timers (setInterval f d s) = (timers s)(next_timer s \<mapsto> \<lparr>due = now s + d, task = f\<rparr>)"
  "next_timer (setInterval f d s) = Suc (next_timer s)"
  "now (setInterval f d s) = now s"
  "resolved (setInterval f d s) = resolved s"
  "handlers (setInterval f d s) = handlers s"
  "listening (setInterval f d s) = listening s"
  "onCallback_calls (setInterval f d s) = onCallback_calls s"
  "isTauri (setInterval f d s) = isTauri s"
  "globalListenerStarted (setInterval f d s) = globalListenerStarted s"
  by (simp_all add: setInterval_def)

lemma startGlobalCallbackListener_fields [simp]:
  "cache_of c (startGlobalCallbackListener s) = cache_of c s"
  "timers (startGlobalCallbackListener s) = timers s"
  "next_timer (startGlobalCallbackListener s) = next_timer s"
  "now (startGlobalCallbackListener s) = now s"
  "resolved (startGlobalCallbackListener s) = resolved s"
  "handlers (startGlobalCallbackListener s) = handlers s"
  "isTauri (startGlobalCallbackListener s) = isTauri s"
  "globalListenerStarted (startGlobalCallbackListener s)"
  by (simp_all add: startGlobalCallbackListener_def onCallback_def)


lemma written_no_details [simp]: "written c message no_details = None"
  by (cases c) (simp_all add: written_def no_details_def)

lemma waitForResult_hit:
  "cache_of c s k = Some v \<Longrightarrow> waitForResult c k T s = (Returned v, cache_delete c k s)"
  by (simp add: waitForResult_def)

lemma waitForResult_miss:
  "cache_of c s k = None \<Longrightarrow>
   waitForResult c k T s =
     (Polling (next_timer s), setInterval (CheckInterval c k (now s) T) 50 s)"
  by (simp add: waitForResult_def)

subsection \<open>Well-formed states\<close>

lemma wf_initial: "wf (initial tauri t0)"
  by (simp add: wf_def initial_def)

lemma wfD:
  assumes "wf s"
  shows "handlers s \<le> 1"
    and "timers s i = Some tm \<Longrightarrow> i < next_timer s"
    and "timers s i = Some tm \<Longrightarrow> resolved s i = None"
    and "next_timer s \<le> i \<Longrightarrow> resolved s i = None"
    and "timers s (next_timer s) = None"
    and "onCallback_calls s = (if globalListenerStarted s then 1 else 0)"
    and "handlers s + listening s \<le> (if isTauri s then onCallback_calls s else 0)"
  using assms unfolding wf_def by (auto intro: ccontr split: if_splits)

lemma on_timeD: "on_time s \<Longrightarrow> timers s i = Some tm \<Longrightarrow> now s \<le> due tm"
  by (simp add: on_time_def)

lemma on_time_initial: "on_time (initial tauri t0)"
  by (simp add: on_time_def initial_def)

lemma emit_wf:
  assumes "wf s"
  shows "emit message details s = (if handlers s = 1 then listener message details s else s)"
proof (cases "handlers s = 1")
  case True
  then show ?thesis by (simp add: emit_def)
next
  case False
  with wfD(1)[OF assms] have "handlers s = 0" by simp
  then show ?thesis by (simp add: emit_def)
qed

lemma none_due_beforeD:
  assumes "none_due_before t s" "timers s i = Some tm" "i < next_timer s"
  shows "t \<le> due tm"
proof -
  from assms(3) have "i \<in> set [0 ..< next_timer s]" by simp
  with assms(1) have "case timers s i of None \<Rightarrow> True | Some tm \<Rightarrow> t \<le> due tm"
    unfolding none_due_before_def list_all_iff by blast
  with assms(2) show ?thesis by simp
qed


subsection \<open>The cases of a step\<close>

lemma wait_common_body:
  "waitForCtrlResult ctrlId timeoutMs s =
     waitForResult CtrlCache ctrlId (case timeoutMs of None \<Rightarrow> 30000 | Some t \<Rightarrow> t) s"
  "waitForResResult resId timeoutMs s =
     waitForResult ResCache resId (case timeoutMs of None \<Rightarrow> 30000 | Some t \<Rightarrow> t) s"
  by (simp_all add: waitForCtrlResult_def waitForResResult_def waitForResult_def Let_def
      split: option.split)

lemma step_wait:
  "wait_of a = Some (c, k, T) \<Longrightarrow> step a s = Some (snd (waitForResult c k T s))"
  by (cases a) (auto simp: wait_common_body)

lemma step_cases [consumes 2,
    case_names Start Registered Rejected Ignored Unparsed Put Hit Miss Expire Match Timeout
      Rearm Clock]:
  assumes "wf s" and "step a s = Some s'"
  obtains
    (Start) "a = StartListener" "s' = startGlobalCallbackListener s"
  | (Registered) "a = ListenDone" "0 < listening s"
      "s' = s\<lparr>listening := listening s - 1, handlers := Suc (handlers s)\<rparr>"
  | (Rejected) "a = ListenFailed" "0 < listening s"
      "s' = s\<lparr>listening := listening s - 1\<rparr>"
  | (Ignored) m d where "a = Callback m d" "s' = s"
      "handlers s = 0 \<or> (\<forall>c. written c m d = None)"
  | (Unparsed) m where "a = CallbackUnparsed m" "s' = s"
  | (Put) m d c k v where "a = Callback m d" "written c m d = Some (k, v)"
      "handlers s = 1" "s' = put c k v s"
  | (Hit) c k T v where "wait_of a = Some (c, k, T)" "cache_of c s k = Some v"
      "s' = cache_delete c k s"
  | (Miss) c k T where "wait_of a = Some (c, k, T)" "cache_of c s k = None"
      "s' = setInterval (CheckInterval c k (now s) T) 50 s"
  | (Expire) i tm c k where "a = Fire i" "timers s i = Some tm" "task tm = DeleteEntry c k"
      "due tm \<le> now s" "s' = cache_delete c k (s\<lparr>timers := (timers s)(i := None)\<rparr>)"
  | (Match) i tm c k t0 T v where "a = Fire i" "timers s i = Some tm"
      "task tm = CheckInterval c k t0 T" "due tm \<le> now s" "cache_of c s k = Some v"
      "s' = cache_delete c k
              (s\<lparr>timers := (timers s)(i := None), resolved := (resolved s)(i \<mapsto> (v, now s))\<rparr>)"
  | (Timeout) i tm c k t0 T where "a = Fire i" "timers s i = Some tm"
      "task tm = CheckInterval c k t0 T" "due tm \<le> now s" "cache_of c s k = None"
      "now s - t0 > T"
      "s' = s\<lparr>timers := (timers s)(i := None), resolved := (resolved s)(i \<mapsto> (failed, now s))\<rparr>"
  | (Rearm) i tm c k t0 T where "a = Fire i" "timers s i = Some tm"
      "task tm = CheckInterval c k t0 T" "due tm \<le> now s" "cache_of c s k = None"
      "\<not> now s - t0 > T"
      "s' = s\<lparr>timers := (timers s)(i \<mapsto> tm\<lparr>due := due tm + 50\<rparr>)\<rparr>"
  | (Clock) d where "a = Elapse d" "s' = s\<lparr>now := now s + int d\<rparr>"
proof (cases a)
  case StartListener
  with assms(2) show ?thesis by (auto intro: Start)
next
  case ListenDone
  with assms(2) show ?thesis
    by (auto simp: listen_resolved_def split: if_splits intro: Registered)
next
  case ListenFailed
  with assms(2) show ?thesis
    by (auto simp: listen_rejected_def split: if_splits intro: Rejected)
next
  case (CallbackUnparsed m)
  with assms have "s' = (if handlers s = 1 then listener m no_details s else s)"
    by (simp add: emit_wf)
  then have "s' = s" by (simp add: listener_skip)
  with CallbackUnparsed show ?thesis by (auto intro: Unparsed)
next
  case (Callback m d)
  with assms have s': "s' = (if handlers s = 1 then listener m d s else s)"
    by (simp add: emit_wf)
  show ?thesis
  proof (cases "handlers s = 1 \<and> (\<exists>c. written c m d \<noteq> None)")
    case True
    then obtain c k v where w: "written c m d = Some (k, v)" by auto
    with True s' have "s' = put c k v s" by (simp add: listener_put)
    with Callback w True show ?thesis by (auto intro: Put)
  next
    case False
    have "s' = s"
    proof (cases "handlers s = 1")
      case True
      with False have "\<forall>c. written c m d = None"
        by blast
      then have "written CtrlCache m d = None" "written ResCache m d = None"
        by blast+
      then show ?thesis using s' by (simp add: listener_skip)
    next
      case False
      then show ?thesis using s' by simp
    qed
    moreover have "handlers s = 0 \<or> (\<forall>c. written c m d = None)"
    proof (cases "handlers s = 1")
      case True
      with False show ?thesis by blast
    next
      case False
      with wfD(1)[OF assms(1)] show ?thesis by simp
    qed
    ultimately show ?thesis using Callback by (auto intro: Ignored)
  qed
next
  case (WaitCtrl k T)
  then have w: "wait_of a = Some (CtrlCache, k, case T of None \<Rightarrow> 30000 | Some t \<Rightarrow> t)"
    by simp
  show ?thesis
  proof (cases "cache_of CtrlCache s k")
    case None
    with assms(2) step_wait[OF w, of s] show ?thesis
      by (auto simp: waitForResult_miss intro: Miss[OF w])
  next
    case (Some v)
    with assms(2) step_wait[OF w, of s] show ?thesis
      by (auto simp: waitForResult_hit intro: Hit[OF w])
  qed
next
  case (WaitRes k T)
  then have w: "wait_of a = Some (ResCache, k, case T of None \<Rightarrow> 30000 | Some t \<Rightarrow> t)"
    by simp
  show ?thesis
  proof (cases "cache_of ResCache s k")
    case None
    with assms(2) step_wait[OF w, of s] show ?thesis
      by (auto simp: waitForResult_miss intro: Miss[OF w])
  next
    case (Some v)
    with assms(2) step_wait[OF w, of s] show ?thesis
      by (auto simp: waitForResult_hit intro: Hit[OF w])
  qed
next
  case (Fire i)
  with assms(2) obtain tm where tm: "timers s i = Some tm" and le: "due tm \<le> now s"
    and s': "s' = runTimer i tm s"
    by (auto split: option.splits if_splits)
  note due = le
  from wfD(3)[OF assms(1) tm] have unres: "resolved s i = None" .
  show ?thesis
  proof (cases "task tm")
    case (DeleteEntry c k)
    with s' have "s' = cache_delete c k (s\<lparr>timers := (timers s)(i := None)\<rparr>)"
      by (simp add: runTimer_def)
    with Fire tm DeleteEntry due show ?thesis by (auto intro: Expire)
  next
    case (CheckInterval c k t0 T)
    show ?thesis
    proof (cases "cache_of c s k")
      case (Some v)
      with s' CheckInterval unres
      have "s' = cache_delete c k
              (s\<lparr>timers := (timers s)(i := None), resolved := (resolved s)(i \<mapsto> (v, now s))\<rparr>)"
        by (cases c)
          (simp_all add: runTimer_def checkInterval_callback_def clearInterval_def resolve_def)
      with Fire tm CheckInterval due Some show ?thesis by (auto intro: Match)
    next
      case None
      show ?thesis
      proof (cases "now s - t0 > T")
        case True
        with s' CheckInterval unres None
        have "s' = s\<lparr>timers := (timers s)(i := None),
                      resolved := (resolved s)(i \<mapsto> (failed, now s))\<rparr>"
          by (simp add: runTimer_def checkInterval_callback_def clearInterval_def resolve_def)
        with Fire tm CheckInterval due None True show ?thesis by (auto intro: Timeout)
      next
        case False
        with s' CheckInterval None
        have "s' = s\<lparr>timers := (timers s)(i \<mapsto> tm\<lparr>due := due tm + 50\<rparr>)\<rparr>"
          by (simp add: runTimer_def checkInterval_callback_def)
        with Fire tm CheckInterval due None False show ?thesis by (auto intro: Rearm)
      qed
    qed
  qed
next
  case (Elapse d)
  with assms(2) have "s' = s\<lparr>now := now s + int d\<rparr>" by simp
  with Elapse show ?thesis by (auto intro: Clock)
qed


subsection \<open>Runs\<close>

lemma wf_step:
  assumes "wf s" and "step a s = Some s'"
  shows "wf s'"
  using assms
proof (cases rule: step_cases)
  case Start
  with assms(1) show ?thesis
    by (auto simp: wf_def startGlobalCallbackListener_def onCallback_def)
next
  case Registered
  with assms(1) show ?thesis
    unfolding wf_def by (simp split: if_splits)
next
  case Rejected
  with assms(1) show ?thesis
    unfolding wf_def by (simp split: if_splits)
next
  case (Clock d)
  with assms(1) show ?thesis
    unfolding wf_def by (simp split: if_splits)
qed (use assms(1) in \<open>fastforce simp: wf_def less_Suc_eq split: if_splits\<close>)+

lemma exec_append:
  "exec (as @ bs) s = (case exec as s of None \<Rightarrow> None | Some s' \<Rightarrow> exec bs s')"
  by (induction as arbitrary: s) (auto split: option.splits)

lemma exec_snoc:
  "exec (as @ [a]) s = Some s'' \<longleftrightarrow> (\<exists>s'. exec as s = Some s' \<and> step a s' = Some s'')"
  by (auto simp: exec_append split: option.splits)

lemma wf_exec:
  assumes "wf s" and "exec as s = Some s'"
  shows "wf s'"
  using assms
proof (induction as arbitrary: s)
  case Nil
  then show ?case by simp
next
  case (Cons a as)
  then show ?case by (auto split: option.splits dest: wf_step)
qed

lemma wf_reachable: "exec as (initial tauri t0) = Some s \<Longrightarrow> wf s"
  using wf_exec[OF wf_initial] .




lemma on_time_step:
  assumes "wf s" and "on_time s" and "step a s = Some s'" and "on_schedule a s"
  shows "on_time s'"
  using assms(1,3)
proof (cases rule: step_cases)
  case Start
  with assms(2) show ?thesis
    by (simp add: on_time_def startGlobalCallbackListener_def onCallback_def)
next
  case (Clock d)
  with assms(4) have "none_due_before (now s + int d) s" by simp
  from none_due_beforeD[OF this] wfD(2)[OF assms(1)] Clock show ?thesis
    by (auto simp: on_time_def)
next
  case (Rearm i tm c k t0 T)
  from on_timeD[OF assms(2) Rearm(2)] have "now s \<le> due tm + 50" by simp
  with Rearm assms(2) show ?thesis by (auto simp: on_time_def)
qed (use assms(2) in \<open>auto simp: on_time_def\<close>)

lemma punctual_Cons:
  assumes "punctual (a # as) s" and "step a s = Some s1"
  shows "on_schedule a s" and "punctual as s1"
  using assms by simp_all

lemma on_time_exec:
  assumes "wf s" and "on_time s" and "exec as s = Some s'" and "punctual as s"
  shows "on_time s'"
  using assms
proof (induction as arbitrary: s)
  case Nil
  then show ?case by simp
next
  case (Cons a as)
  from Cons.prems obtain s1 where s1: "step a s = Some s1" "exec as s1 = Some s'"
    by (auto split: option.splits)
  note p = punctual_Cons[OF Cons.prems(4) s1(1)]
  from Cons.IH[OF wf_step[OF Cons.prems(1) s1(1)]
      on_time_step[OF Cons.prems(1,2) s1(1) p(1)] s1(2) p(2)]
  show ?case .
qed

lemma on_time_reachable:
  "exec as (initial tauri t0) = Some s \<Longrightarrow> punctual as (initial tauri t0) \<Longrightarrow> on_time s"
  using on_time_exec[OF wf_initial on_time_initial] .


subsection \<open>What a step can do to one table entry\<close>

lemma notifies_iff:
  "notifies c k (Callback m d) \<longleftrightarrow> (\<exists>v. written c m d = Some (k, v))"
  by (auto split: option.splits)

lemma step_entry:
  assumes "wf s" and "step a s = Some s'" and "\<not> notifies c k a"
  shows "cache_of c s' k = cache_of c s k \<or> cache_of c s' k = None"
  using assms(1,2)
proof (cases rule: step_cases)
  case Start
  then show ?thesis
    by (cases c) (simp_all add: startGlobalCallbackListener_def onCallback_def)
next
  case (Put m d c' k' v)
  with assms(3) have "\<not> (c' = c \<and> k' = k)" by (auto simp: notifies_iff)
  with Put show ?thesis by auto
qed auto

lemma exec_entry:
  assumes "wf s" and "exec as s = Some s'" and "\<forall>a\<in>set as. \<not> notifies c k a"
  shows "cache_of c s' k = cache_of c s k \<or> cache_of c s' k = None"
  using assms
proof (induction as arbitrary: s)
  case Nil
  then show ?case by simp
next
  case (Cons a as)
  from Cons.prems obtain s1 where s1: "step a s = Some s1" "exec as s1 = Some s'"
    by (auto split: option.splits)
  from Cons.prems(3) have na: "\<not> notifies c k a" and nas: "\<forall>a\<in>set as. \<not> notifies c k a"
    by simp_all
  from Cons.IH[OF wf_step[OF Cons.prems(1) s1(1)] s1(2) nas]
    step_entry[OF Cons.prems(1) s1(1) na]
  show ?case by auto
qed

lemma step_notify:
  assumes "wf s" and "handlers s = 1" and "written c m d = Some (k, v)"
  shows "step (Callback m d) s = Some (put c k v s)"
  using assms by (simp add: emit_wf listener_put)

subsection \<open>Retention\<close>

lemma covered_step:
  assumes "wf s" and "step a s = Some s'" and "\<not> notifies c k a" and "covered c k dl s"
  shows "covered c k dl s'"
proof (cases "cache_of c s' k = None")
  case True
  then show ?thesis by (simp add: covered_def)
next
  case False
  with step_entry[OF assms(1-3)] have same: "cache_of c s' k = cache_of c s k" by simp
  with False assms(4) obtain i tm where tm: "timers s i = Some tm"
    "task tm = DeleteEntry c k" "due tm \<le> dl"
    by (auto simp: covered_def)
  from wfD(2)[OF assms(1) tm(1)] have fresh: "i \<noteq> next_timer s" by simp
  have "timers s' i = Some tm"
    using assms(1,2)
  proof (cases rule: step_cases)
    case Start
    then show ?thesis
      using tm by (simp add: startGlobalCallbackListener_def onCallback_def)
  next
    case (Expire i' tm' c' k')
    have "i' \<noteq> i"
    proof
      assume "i' = i"
      with Expire tm have "c' = c" "k' = k" by simp_all
      with Expire have "cache_of c s' k = None" by simp
      with False show False by simp
    qed
    with Expire tm show ?thesis by simp
  qed (use tm fresh in auto)
  with tm show ?thesis by (auto simp: covered_def)
qed

lemma covered_exec:
  assumes "wf s" and "exec as s = Some s'" and "\<forall>a\<in>set as. \<not> notifies c k a"
    and "covered c k dl s"
  shows "covered c k dl s'"
  using assms
proof (induction as arbitrary: s)
  case Nil
  then show ?case by simp
next
  case (Cons a as)
  from Cons.prems obtain s1 where s1: "step a s = Some s1" "exec as s1 = Some s'"
    by (auto split: option.splits)
  from Cons.prems(3) have na: "\<not> notifies c k a" and nas: "\<forall>a\<in>set as. \<not> notifies c k a"
    by simp_all
  from covered_step[OF Cons.prems(1) s1(1) na Cons.prems(4)]
  have "covered c k dl s1" .
  from Cons.IH[OF wf_step[OF Cons.prems(1) s1(1)] s1(2) nas this] show ?case .
qed

lemma covered_late:
  assumes "on_time s" and "covered c k dl s" and "dl < now s"
  shows "cache_of c s k = None"
proof (rule ccontr)
  assume "cache_of c s k \<noteq> None"
  with assms(2) obtain i tm where tm: "timers s i = Some tm" "due tm \<le> dl"
    by (auto simp: covered_def)
  from on_timeD[OF assms(1) tm(1)] tm(2) assms(3) show False by simp
qed

subsection \<open>Consumption\<close>




subsection \<open>A wait that polls an empty table\<close>








subsection \<open>A timer is touched by its own firing only\<close>



subsection \<open>The subscription\<close>

lemma handlers_step:
  assumes "wf s" and "step a s = Some s'"
  shows "handlers s' = (if a = ListenDone then 1 else handlers s)"
proof -
  have wf': "wf s'" using assms by (rule wf_step)
  from assms show ?thesis
  proof (cases rule: step_cases)
    case Registered
    with wfD(1)[OF wf'] show ?thesis by simp
  qed auto
qed

lemma handlers_exec:
  assumes "wf s" and "exec as s = Some s'"
  shows "handlers s' = (if ListenDone \<in> set as then 1 else handlers s)"
  using assms
proof (induction as arbitrary: s)
  case Nil
  then show ?case by simp
next
  case (Cons a as)
  from Cons.prems obtain s1 where s1: "step a s = Some s1" "exec as s1 = Some s'"
    by (auto split: option.splits)
  from Cons.IH[OF wf_step[OF Cons.prems(1) s1(1)] s1(2)] handlers_step[OF Cons.prems(1) s1(1)]
  show ?case by auto
qed

lemma subscribed_exec:
  assumes "wf s" and "exec as s = Some s'" and "handlers s = 1"
  shows "handlers s' = 1"
  using handlers_exec[OF assms(1,2)] assms(3) by simp





subsection \<open>What a wait function answers\<close>


lemma wait_ctrl_hit:
  "ctrlCallbackCache s k = Some v \<Longrightarrow>
   waitForCtrlResult k timeoutMs s =
     (Returned v, s\<lparr>ctrlCallbackCache := (ctrlCallbackCache s)(k := None)\<rparr>)"
  by (simp add: waitForCtrlResult_def Let_def)

lemma wait_res_hit:
  "resCallbackCache s k = Some v \<Longrightarrow>
   waitForResResult k timeoutMs s =
     (Returned v, s\<lparr>resCallbackCache := (resCallbackCache s)(k := None)\<rparr>)"
  by (simp add: waitForResResult_def Let_def)

lemma wait_ctrl_miss:
  "ctrlCallbackCache s k = None \<Longrightarrow>
   fst (waitForCtrlResult k timeoutMs s) = Polling (next_timer s)"
  by (simp add: waitForCtrlResult_def Let_def)

lemma wait_res_miss:
  "resCallbackCache s k = None \<Longrightarrow>
   fst (waitForResResult k timeoutMs s) = Polling (next_timer s)"
  by (simp add: waitForResResult_def Let_def)

lemma start_and_listen:
  "exec [StartListener, ListenDone] (initial True t0) =
     Some ((initial True t0)\<lparr>globalListenerStarted := True, onCallback_calls := 1,
             listening := 0, handlers := 1\<rparr>)"
  by (simp add: startGlobalCallbackListener_def onCallback_def listen_resolved_def initial_def)

section \<open>The claims\<close>

text \<open>
  C1. For either table: when the table already holds an outcome for the id at the
  moment \<^verbatim>\<open>waitForCtrlResult\<close> / \<^verbatim>\<open>waitForResResult\<close> is called, the call returns that
  outcome from its first check. The state it leaves is the state it found with that one
  entry removed: no interval was registered, so the polling loop was not entered.
\<close>

theorem wait_returns_cached_outcome:
  "(ctrlCallbackCache s ctrlId = Some v \<longrightarrow>
      waitForCtrlResult ctrlId timeoutMs s =
        (Returned v, s\<lparr>ctrlCallbackCache := (ctrlCallbackCache s)(ctrlId := None)\<rparr>)) \<and>
   (resCallbackCache s resId = Some v' \<longrightarrow>
      waitForResResult resId timeoutMs' s =
        (Returned v', s\<lparr>resCallbackCache := (resCallbackCache s)(resId := None)\<rparr>))"
  by (simp add: waitForCtrlResult_def waitForResResult_def Let_def)

theorem wait_returns_cached_outcome_witness:
  "ctrlCallbackCache
     (listener ''Controller.Action.Succeeded''
        \<lparr>res_id = None, ctrl_id = Some 42, task_id = None\<rparr> (initial True 0)) 42 = Some succeeded \<and>
   fst (waitForCtrlResult 42 (Some 30000)
     (listener ''Controller.Action.Succeeded''
        \<lparr>res_id = None, ctrl_id = Some 42, task_id = None\<rparr> (initial True 0))) = Returned succeeded \<and>
   timers (snd (waitForCtrlResult 42 (Some 30000)
     (listener ''Controller.Action.Succeeded''
        \<lparr>res_id = None, ctrl_id = Some 42, task_id = None\<rparr> (initial True 0)))) 1 = None"
proof -
  let ?s = "listener ''Controller.Action.Succeeded''
        \<lparr>res_id = None, ctrl_id = Some 42, task_id = None\<rparr> (initial True 0)"
  have c: "ctrlCallbackCache ?s 42 = Some succeeded"
    by (simp add: listener_def initial_def setTimeout_def)
  have t: "timers ?s 1 = None"
    by (simp add: listener_def initial_def setTimeout_def)
  from wait_returns_cached_outcome[of ?s 42 succeeded "Some 30000"] c
  have "waitForCtrlResult 42 (Some 30000) ?s =
      (Returned succeeded, ?s\<lparr>ctrlCallbackCache := (ctrlCallbackCache ?s)(42 := None)\<rparr>)"
    by blast
  with c t show ?thesis by simp
qed










text \<open>
  C5. Take any run from module load in which the listener is subscribed, and two
  terminal notifications for the same id \<open>k\<close> of one table, the second arriving after the
  first (whatever happens in between). After the second, the table holds one outcome for
  \<open>k\<close>, the second one; \<^verbatim>\<open>waitForCtrlResult\<close> (for the controller table) or
  \<^verbatim>\<open>waitForResResult\<close> (for the resource table) called then returns it at once and leaves
  the state it found without that entry; and for as long as no further notification for
  \<open>k\<close> arrives, the table holds for \<open>k\<close> either the second outcome or nothing (a wait may
  have taken it, a cleanup timer may have deleted it), and the wait function called at
  any such later moment returns the second outcome at once if the entry is there and
  starts polling if it is not: no wait observes the first outcome.
\<close>

theorem last_notification_wins:
  assumes "exec as0 (initial tauri t0) = Some s" and "handlers s = 1"
    and "written c m1 d1 = Some (k, v1)" and "written c m2 d2 = Some (k, v2)"
    and "exec (Callback m1 d1 # as1 @ [Callback m2 d2]) s = Some s2"
  shows "cache_of c s2 k = Some v2 \<and>
         (c = CtrlCache \<longrightarrow>
            waitForCtrlResult k timeoutMs s2 =
              (Returned v2, s2\<lparr>ctrlCallbackCache := (ctrlCallbackCache s2)(k := None)\<rparr>)) \<and>
         (c = ResCache \<longrightarrow>
            waitForResResult k timeoutMs s2 =
              (Returned v2, s2\<lparr>resCallbackCache := (resCallbackCache s2)(k := None)\<rparr>)) \<and>
         (\<forall>as s3. exec as s2 = Some s3 \<and> (\<forall>a\<in>set as. \<not> notifies c k a) \<longrightarrow>
            (cache_of c s3 k = Some v2 \<or> cache_of c s3 k = None) \<and>
            (c = CtrlCache \<longrightarrow>
               fst (waitForCtrlResult k timeoutMs s3) =
                 (if ctrlCallbackCache s3 k = None then Polling (next_timer s3)
                  else Returned v2)) \<and>
            (c = ResCache \<longrightarrow>
               fst (waitForResResult k timeoutMs s3) =
                 (if resCallbackCache s3 k = None then Polling (next_timer s3)
                  else Returned v2)))"
proof -
  have wf: "wf s" using assms(1) by (rule wf_reachable)
  from assms(5) obtain s1 where s1: "exec (Callback m1 d1 # as1) s = Some s1"
    and s2: "step (Callback m2 d2) s1 = Some s2"
    using exec_snoc[of "Callback m1 d1 # as1" "Callback m2 d2" s s2] by auto
  have wf1: "wf s1" using wf s1 by (rule wf_exec)
  have "handlers s1 = 1"
    using wf s1 assms(2) by (rule subscribed_exec)
  from step_notify[OF wf1 this assms(4)] s2 have eq: "s2 = put c k v2 s1" by simp
  then have entry: "cache_of c s2 k = Some v2" by simp
  have wf2: "wf s2" using wf1 s2 by (rule wf_step)
  have now_ctrl: "waitForCtrlResult k timeoutMs s2 =
      (Returned v2, s2\<lparr>ctrlCallbackCache := (ctrlCallbackCache s2)(k := None)\<rparr>)"
    if "c = CtrlCache"
    using entry that by (simp add: wait_ctrl_hit)
  have now_res: "waitForResResult k timeoutMs s2 =
      (Returned v2, s2\<lparr>resCallbackCache := (resCallbackCache s2)(k := None)\<rparr>)"
    if "c = ResCache"
    using entry that by (simp add: wait_res_hit)
  have later: "(cache_of c s3 k = Some v2 \<or> cache_of c s3 k = None) \<and>
            (c = CtrlCache \<longrightarrow>
               fst (waitForCtrlResult k timeoutMs s3) =
                 (if ctrlCallbackCache s3 k = None then Polling (next_timer s3)
                  else Returned v2)) \<and>
            (c = ResCache \<longrightarrow>
               fst (waitForResResult k timeoutMs s3) =
                 (if resCallbackCache s3 k = None then Polling (next_timer s3)
                  else Returned v2))"
    if "exec as s2 = Some s3" "\<forall>a\<in>set as. \<not> notifies c k a" for as s3
  proof -
    from exec_entry[OF wf2 that] entry
    have e: "cache_of c s3 k = Some v2 \<or> cache_of c s3 k = None" by auto
    have "fst (waitForCtrlResult k timeoutMs s3) =
        (if ctrlCallbackCache s3 k = None then Polling (next_timer s3) else Returned v2)"
      if "c = CtrlCache"
      using e that by (auto simp: wait_ctrl_hit wait_ctrl_miss)
    moreover have "fst (waitForResResult k timeoutMs s3) =
        (if resCallbackCache s3 k = None then Polling (next_timer s3) else Returned v2)"
      if "c = ResCache"
      using e that by (auto simp: wait_res_hit wait_res_miss)
    ultimately show ?thesis using e by blast
  qed
  show ?thesis
  proof (intro conjI allI impI)
    show "cache_of c s2 k = Some v2" by (rule entry)
  next
    assume "c = CtrlCache"
    then show "waitForCtrlResult k timeoutMs s2 =
      (Returned v2, s2\<lparr>ctrlCallbackCache := (ctrlCallbackCache s2)(k := None)\<rparr>)"
      by (rule now_ctrl)
  next
    assume "c = ResCache"
    then show "waitForResResult k timeoutMs s2 =
      (Returned v2, s2\<lparr>resCallbackCache := (resCallbackCache s2)(k := None)\<rparr>)"
      by (rule now_res)
  next
    fix as s3
    assume run: "exec as s2 = Some s3 \<and> (\<forall>a\<in>set as. \<not> notifies c k a)"
    note l = later[OF conjunct1[OF run] conjunct2[OF run]]
    show "cache_of c s3 k = Some v2 \<or> cache_of c s3 k = None"
      by (rule l[THEN conjunct1])
    {
      assume "c = CtrlCache"
      then show "fst (waitForCtrlResult k timeoutMs s3) =
        (if ctrlCallbackCache s3 k = None then Polling (next_timer s3) else Returned v2)"
        by (rule l[THEN conjunct2, THEN conjunct1, rule_format])
    }
    {
      assume "c = ResCache"
      then show "fst (waitForResResult k timeoutMs s3) =
        (if resCallbackCache s3 k = None then Polling (next_timer s3) else Returned v2)"
        by (rule l[THEN conjunct2, THEN conjunct2, rule_format])
    }
  qed
qed

theorem last_notification_wins_witness:
  "\<exists>s s2.
      exec [StartListener, ListenDone] (initial True 0) = Some s \<and>
      handlers s = 1 \<and>
      exec [Callback ''Resource.Loading.Failed'' \<lparr>res_id = Some 5, ctrl_id = None, task_id = None\<rparr>,
            Elapse 20,
            Callback ''Resource.Loading.Succeeded'' \<lparr>res_id = Some 5, ctrl_id = None, task_id = None\<rparr>]
        s = Some s2 \<and>
      resCallbackCache s2 5 = Some succeeded \<and>
      fst (waitForResResult 5 None s2) = Returned succeeded \<and>
      resCallbackCache (snd (waitForResResult 5 None s2)) 5 = None"
proof -
  let ?d = "\<lparr>res_id = Some 5, ctrl_id = None, task_id = None\<rparr>"
  let ?s = "(initial True 0)\<lparr>globalListenerStarted := True, onCallback_calls := 1,
             listening := 0, handlers := 1\<rparr>"
  have r: "exec [StartListener, ListenDone] (initial True 0) = Some ?s"
    by (rule start_and_listen)
  have g: "handlers ?s = 1" by simp
  have w1: "written ResCache ''Resource.Loading.Failed'' ?d = Some (5, failed)"
    and w2: "written ResCache ''Resource.Loading.Succeeded'' ?d = Some (5, succeeded)"
    by (simp_all add: written_def)
  have "exec [Callback ''Resource.Loading.Failed'' ?d, Elapse 20,
       Callback ''Resource.Loading.Succeeded'' ?d] ?s \<noteq> None"
    by simp
  then obtain s2 where s2: "exec (Callback ''Resource.Loading.Failed'' ?d # [Elapse 20] @
       [Callback ''Resource.Loading.Succeeded'' ?d]) ?s = Some s2"
    by auto
  note th = last_notification_wins[OF r g w1 w2 s2, of None]
  from th have a: "cache_of ResCache s2 5 = Some succeeded"
    and b: "waitForResResult 5 None s2 =
      (Returned succeeded, s2\<lparr>resCallbackCache := (resCallbackCache s2)(5 := None)\<rparr>)"
    by blast+
  from a have a': "resCallbackCache s2 5 = Some succeeded" unfolding cache_of.simps .
  from b have b1: "fst (waitForResResult 5 None s2) = Returned succeeded"
    and b2: "resCallbackCache (snd (waitForResResult 5 None s2)) 5 = None"
    by simp_all
  from s2 have s2': "exec [Callback ''Resource.Loading.Failed'' ?d, Elapse 20,
       Callback ''Resource.Loading.Succeeded'' ?d] ?s = Some s2"
    by (simp del: exec.simps)
  from r g s2' a' b1 b2 show ?thesis by blast
qed

text \<open>
  C6, as stated, has the entry removed no later than 30 seconds after its insertion.
  The removal is the work of a timer, and the event loop may run a timer later than it
  is due. The listener is subscribed and writes \<open>succeeded\<close> for id 9 of the controller
  table at time 0; no wait is ever called; at time 30001 the deletion, due at 30000, has
  not run yet, and the entry is still in the table.
\<close>

theorem entry_outlives_retention_window:
  "now (the (exec [StartListener, ListenDone,
         Callback ''Controller.Action.Succeeded'' \<lparr>res_id = None, ctrl_id = Some 9, task_id = None\<rparr>]
         (initial True 0))) = 0 \<and>
   now (the (exec [StartListener, ListenDone,
         Callback ''Controller.Action.Succeeded'' \<lparr>res_id = None, ctrl_id = Some 9, task_id = None\<rparr>,
         Elapse 30001] (initial True 0))) = 30001 \<and>
   ctrlCallbackCache (the (exec [StartListener, ListenDone,
         Callback ''Controller.Action.Succeeded'' \<lparr>res_id = None, ctrl_id = Some 9, task_id = None\<rparr>,
         Elapse 30001] (initial True 0))) 9 = Some succeeded \<and>
   timers (the (exec [StartListener, ListenDone,
         Callback ''Controller.Action.Succeeded'' \<lparr>res_id = None, ctrl_id = Some 9, task_id = None\<rparr>,
         Elapse 30001] (initial True 0))) 0 =
     Some \<lparr>due = 30000, task = DeleteEntry CtrlCache 9\<rparr> \<and>
   \<not> (30001 \<le> 0 + CACHE_CLEANUP_TIMEOUT)"
  by (simp add: startGlobalCallbackListener_def onCallback_def listen_resolved_def emit_def
    listener_def setTimeout_def CACHE_CLEANUP_TIMEOUT_def initial_def)

text \<open>
  C6, amended. Take any run from module load in which the listener is subscribed, and a
  terminal notification for id \<open>k\<close> of a table, delivered when the clock shows \<open>now s\<close>.
  Whatever happens next (waits or none), as long as no further notification for \<open>k\<close> puts
  a new entry in: while the table has an entry for \<open>k\<close>, a deletion of exactly that key is
  pending that is due no later than \<open>now s + 30000\<close>, and the entry is gone once such a
  deletion has run. So when the timers of the run are punctual, the table has no entry
  for \<open>k\<close> in any state whose clock is past \<open>now s + 30000\<close>: the entry is then gone 30
  seconds after its insertion at the latest.
\<close>

theorem entry_removed_within_retention_window:
  assumes reach: "exec as0 (initial tauri t0) = Some s"
    and notif: "handlers s = 1" "written c m d = Some (k, v)"
    and run: "exec (Callback m d # as) s = Some s'"
    and no_new: "\<forall>a\<in>set as. \<not> notifies c k a"
  shows "(cache_of c s' k \<noteq> None \<longrightarrow>
            (\<exists>i tm. timers s' i = Some tm \<and> task tm = DeleteEntry c k \<and>
                    due tm \<le> now s + CACHE_CLEANUP_TIMEOUT)) \<and>
         (\<forall>i tm s''. timers s' i = Some tm \<and> task tm = DeleteEntry c k \<and>
                     step (Fire i) s' = Some s'' \<longrightarrow> cache_of c s'' k = None) \<and>
         (punctual as0 (initial tauri t0) \<and> punctual (Callback m d # as) s \<and>
          now s + CACHE_CLEANUP_TIMEOUT < now s' \<longrightarrow> cache_of c s' k = None)"
proof -
  have wf: "wf s" using reach by (rule wf_reachable)
  note put = step_notify[OF wf notif]
  from run put have ex: "exec as (put c k v s) = Some s'" by simp
  have wf1: "wf (put c k v s)" using wf put by (rule wf_step)
  have wf': "wf s'" using wf1 ex by (rule wf_exec)
  have "covered c k (now s + 30000) (put c k v s)"
    by (auto simp: covered_def)
  from covered_exec[OF wf1 ex no_new this]
  have cov: "covered c k (now s + 30000) s'" .
  then have pending: "cache_of c s' k \<noteq> None \<longrightarrow>
            (\<exists>i tm. timers s' i = Some tm \<and> task tm = DeleteEntry c k \<and>
                    due tm \<le> now s + CACHE_CLEANUP_TIMEOUT)"
    by (simp add: covered_def CACHE_CLEANUP_TIMEOUT_def)
  have fires: "cache_of c s'' k = None"
    if "timers s' i = Some tm" "task tm = DeleteEntry c k" "step (Fire i) s' = Some s''"
    for i tm s''
    using wf' that(3) by (cases rule: step_cases) (use that(1,2) in auto)
  have gone: "cache_of c s' k = None"
    if p: "punctual as0 (initial tauri t0)" "punctual (Callback m d # as) s"
      and late: "now s + CACHE_CLEANUP_TIMEOUT < now s'"
  proof -
    have ot: "on_time s" using reach p(1) by (rule on_time_reachable)
    note p1 = punctual_Cons[OF p(2) put]
    have ot1: "on_time (put c k v s)" using wf ot put p1(1) by (rule on_time_step)
    from covered_late[OF on_time_exec[OF wf1 ot1 ex p1(2)] cov] late
    show ?thesis by (simp add: CACHE_CLEANUP_TIMEOUT_def)
  qed
  from pending fires gone show ?thesis by blast
qed

theorem entry_removed_within_retention_window_witness:
  "\<exists>s s'.
      exec [StartListener, ListenDone] (initial True 0) = Some s \<and>
      punctual [StartListener, ListenDone] (initial True 0) \<and>
      handlers s = 1 \<and>
      exec [Callback ''Controller.Action.Succeeded''
                   \<lparr>res_id = None, ctrl_id = Some 9, task_id = None\<rparr>,
            Elapse 30000, Fire 0, Elapse 1] s = Some s' \<and>
      punctual [Callback ''Controller.Action.Succeeded''
                   \<lparr>res_id = None, ctrl_id = Some 9, task_id = None\<rparr>,
            Elapse 30000, Fire 0, Elapse 1] s \<and>
      now s' = 30001 \<and> ctrlCallbackCache s' 9 = None"
proof -
  let ?d = "\<lparr>res_id = None, ctrl_id = Some 9, task_id = None\<rparr>"
  let ?s = "the (exec [StartListener, ListenDone] (initial True 0))"
  let ?as = "[Elapse 30000, Fire 0, Elapse 1]"
  let ?s' = "the (exec (Callback ''Controller.Action.Succeeded'' ?d # ?as) ?s)"
  note defs = startGlobalCallbackListener_def onCallback_def listen_resolved_def emit_def
    listener_def setTimeout_def CACHE_CLEANUP_TIMEOUT_def initial_def none_due_before_def
    runTimer_def
  have r: "exec [StartListener, ListenDone] (initial True 0) = Some ?s"
    "punctual [StartListener, ListenDone] (initial True 0)"
    by (simp_all add: defs)
  have g: "handlers ?s = 1" and n: "now ?s = 0"
    by (simp_all add: defs)
  have w: "written CtrlCache ''Controller.Action.Succeeded'' ?d = Some (9, succeeded)"
    by (simp add: written_def)
  have q: "\<forall>a\<in>set ?as. \<not> notifies CtrlCache 9 a" by simp
  have s': "exec (Callback ''Controller.Action.Succeeded'' ?d # ?as) ?s = Some ?s'"
    and p: "punctual (Callback ''Controller.Action.Succeeded'' ?d # ?as) ?s"
    and t: "now ?s' = 30001"
    by (simp_all add: defs)
  from t n have late: "now ?s + CACHE_CLEANUP_TIMEOUT < now ?s'"
    by (simp add: CACHE_CLEANUP_TIMEOUT_def)
  note th = entry_removed_within_retention_window[OF r(1) g w s' q]
  from th have "punctual [StartListener, ListenDone] (initial True 0) \<and>
      punctual (Callback ''Controller.Action.Succeeded'' ?d # ?as) ?s \<and>
      now ?s + CACHE_CLEANUP_TIMEOUT < now ?s' \<longrightarrow> cache_of CtrlCache ?s' 9 = None"
    by blast
  with r(2) p late have "cache_of CtrlCache ?s' 9 = None" by blast
  then have e: "ctrlCallbackCache ?s' 9 = None" unfolding cache_of.simps .
  from r g s' p t e show ?thesis by blast
qed




text \<open>
  C8. On an event, for each table: the listener writes the outcome into the table
  exactly when the table's id field is present and the message kind is one of the
  table's two terminal kinds (\<open>written\<close>); its whole effect is then that one write and
  the deferred deletion of the key (\<open>put\<close>). When no table has such an entry to write
  (a non-terminal or unrecognised kind, or no id), the listener changes nothing; it has
  no failing path.
\<close>

theorem listener_writes_exactly_terminal:
  "cache_of c (listener message details s) =
     (case written c message details of
        None \<Rightarrow> cache_of c s
      | Some (k, v) \<Rightarrow> (cache_of c s)(k \<mapsto> v)) \<and>
   (written c message details = Some (k, v) \<longrightarrow>
      listener message details s = put c k v s) \<and>
   ((\<forall>c'. terminal_kind c' message = None) \<longrightarrow> listener message details s = s)"
proof -
  have skip: "listener message details s = s" if "\<forall>c'. written c' message details = None"
    using that by (simp add: listener_skip)
  have 1: "cache_of c (listener message details s) =
     (case written c message details of
        None \<Rightarrow> cache_of c s
      | Some (k, v) \<Rightarrow> (cache_of c s)(k \<mapsto> v))"
  proof (cases "\<exists>c'. written c' message details \<noteq> None")
    case True
    then obtain c' k' v' where w: "written c' message details = Some (k', v')" by auto
    show ?thesis
    proof (cases "c = c'")
      case True
      with w show ?thesis by (simp add: listener_put[OF w])
    next
      case False
      with written_exclusive[OF w, of c] w show ?thesis
        by (simp add: listener_put[OF w])
    qed
  next
    case False
    then have "\<forall>c'. written c' message details = None" by blast
    then show ?thesis by (simp add: skip)
  qed
  have 3: "listener message details s = s" if "\<forall>c'. terminal_kind c' message = None"
  proof (rule skip)
    show "\<forall>c'. written c' message details = None"
      using that by (simp add: written_def split: option.splits)
  qed
  from 1 3 show ?thesis by (auto simp: listener_put)
qed


theorem listener_writes_exactly_terminal_witness:
  "written CtrlCache ''Controller.Action.Failed''
     \<lparr>res_id = None, ctrl_id = Some 7, task_id = None\<rparr> = Some (7, failed) \<and>
   listener ''Controller.Action.Failed''
     \<lparr>res_id = None, ctrl_id = Some 7, task_id = None\<rparr> (initial True 0) =
     put CtrlCache 7 failed (initial True 0) \<and>
   ctrlCallbackCache (listener ''Controller.Action.Failed''
     \<lparr>res_id = None, ctrl_id = Some 7, task_id = None\<rparr> (initial True 0)) 7 = Some failed \<and>
   terminal_kind CtrlCache ''Controller.Action.Starting'' = None \<and>
   terminal_kind ResCache ''Controller.Action.Starting'' = None \<and>
   listener ''Controller.Action.Starting''
     \<lparr>res_id = None, ctrl_id = Some 7, task_id = None\<rparr> (initial True 0) = initial True 0"
proof -
  let ?d = "\<lparr>res_id = None, ctrl_id = Some 7, task_id = None\<rparr>"
  have w: "written CtrlCache ''Controller.Action.Failed'' ?d = Some (7, failed)"
    by (simp add: written_def)
  have n: "terminal_kind c' ''Controller.Action.Starting'' = None" for c'
    by (cases c') simp_all
  from listener_writes_exactly_terminal
    [of CtrlCache "''Controller.Action.Failed''" ?d "initial True 0" 7 failed] w
  have a: "listener ''Controller.Action.Failed'' ?d (initial True 0) = put CtrlCache 7 failed (initial True 0)"
    and b: "ctrlCallbackCache (listener ''Controller.Action.Failed'' ?d (initial True 0)) 7 = Some failed"
    by simp_all
  from listener_writes_exactly_terminal
    [of CtrlCache "''Controller.Action.Starting''" ?d "initial True 0" 7 failed] n
  have c: "listener ''Controller.Action.Starting'' ?d (initial True 0) = initial True 0"
    by blast
  from w a b c n show ?thesis by simp
qed

text \<open>
  C9, as stated, has the default timeout differ between the two tables, within 10 to 30
  seconds. The source gives both functions the same default: a wait for a controller
  action and a wait for a resource load, each called without a timeout, both poll with
  a timeout of 30000 ms.
\<close>

theorem default_timeouts_do_not_differ:
  "timeout_of (snd (waitForCtrlResult 7 None (initial True 0))) 0 = Some 30000 \<and>
   timeout_of (snd (waitForResResult 7 None (initial True 0))) 0 = Some 30000 \<and>
   \<not> (timeout_of (snd (waitForCtrlResult 7 None (initial True 0))) 0 \<noteq>
       timeout_of (snd (waitForResResult 7 None (initial True 0))) 0)"
  by (simp add: timeout_of_def waitForCtrlResult_def waitForResResult_def Let_def
      setInterval_def initial_def)

text \<open>
  C9, amended. When the caller omits the timeout, the wait behaves as if it had been
  called with a timeout of 30000 ms, in both tables.
\<close>

theorem default_timeout_is_30_seconds:
  "waitForCtrlResult ctrlId None s = waitForCtrlResult ctrlId (Some 30000) s \<and>
   waitForResResult resId None s = waitForResResult resId (Some 30000) s"
  by (simp add: waitForCtrlResult_def waitForResResult_def)




end
